theory Spec2Isabelle
  imports Main "HOL-Library.Word"
begin

section \<open>Python values exchanged with the REST client\<close>

text \<open>
  The module \<^verbatim>\<open>aos/devices.py\<close> handles decoded JSON bodies only through Python's
  generic operations (subscripting, \<^verbatim>\<open>.get\<close>, iteration, truth testing, \<^verbatim>\<open>==\<close>).
  A decoded body is a value of \<open>json\<close>. Python's \<^verbatim>\<open>None\<close> is \<open>JNull\<close>; a float is
  kept as its 64 IEEE bits (only its truth value is ever observed); a dict is an
  association list in insertion order, looked up with \<open>map_of\<close> (a decoded dict has no
  repeated key).
\<close>

datatype json =
    JNull
  | JBool bool
  | JInt int
  | JFloat "64 word"
  | JStr string
  | JList "json list"
  | JDict "(string \<times> json) list"

text \<open>The exceptions that can leave the module: the client's typed API error (also
  raised by the module itself), and the built-in errors of the generic operations.\<close>

datatype exn =
    AosAPIError string
  | KeyError string
  | TypeError
  | AttributeError

text \<open>\<^verbatim>\<open>bool(v)\<close>, as tested by \<^verbatim>\<open>if v:\<close>.\<close>

fun truthy :: "json \<Rightarrow> bool" where
  "truthy JNull = False"
| "truthy (JBool b) = b"
| "truthy (JInt n) = (n \<noteq> 0)"
| "truthy (JFloat w) = (w \<noteq> 0 \<and> w \<noteq> 0x8000000000000000)"
| "truthy (JStr s) = (s \<noteq> [])"
| "truthy (JList xs) = (xs \<noteq> [])"
| "truthy (JDict d) = (d \<noteq> [])"

text \<open>\<^verbatim>\<open>v[key]\<close> with a string key: only a dict accepts it, and a missing key raises.\<close>

fun subscript :: "json \<Rightarrow> string \<Rightarrow> exn + json" where
  "subscript (JDict d) k = (case map_of d k of None \<Rightarrow> Inl (KeyError k) | Some v \<Rightarrow> Inr v)"
| "subscript _ k = Inl TypeError"

text \<open>\<^verbatim>\<open>v.get(key, default)\<close>: only a dict has the method.\<close>

fun py_get :: "json \<Rightarrow> string \<Rightarrow> json \<Rightarrow> exn + json" where
  "py_get (JDict d) k dflt = Inr (case map_of d k of None \<Rightarrow> dflt | Some v \<Rightarrow> v)"
| "py_get _ k dflt = Inl AttributeError"

text \<open>\<^verbatim>\<open>for x in v\<close>: a list yields its elements, a dict its keys, a string its
  characters; nothing else is iterable.\<close>

fun py_iter :: "json \<Rightarrow> exn + json list" where
  "py_iter (JList xs) = Inr xs"
| "py_iter (JDict d) = Inr (map (\<lambda>kv. JStr (fst kv)) d)"
| "py_iter (JStr s) = Inr (map (\<lambda>c. JStr [c]) s)"
| "py_iter _ = Inl TypeError"

text \<open>A list comprehension whose element expression can raise: the first exception
  ends it.\<close>

fun comprehension :: "('a \<Rightarrow> exn + 'b) \<Rightarrow> 'a list \<Rightarrow> exn + 'b list" where
  "comprehension f [] = Inr []"
| "comprehension f (x # xs) =
     (case f x of
        Inl e \<Rightarrow> Inl e
      | Inr y \<Rightarrow> (case comprehension f xs of Inl e \<Rightarrow> Inl e | Inr ys \<Rightarrow> Inr (y # ys)))"

section \<open>The REST client and its observable effects\<close>

text \<open>
  The client object \<^verbatim>\<open>self.rest\<close> is not part of the module; it is a parameter.
  Everything the module does to the outside world is recorded as a trace of events. A
  client answers a request as a function of the trace so far, so its answers may depend
  on every earlier request; it either returns a decoded body or raises.
\<close>

datatype event =
    GET string
  | POST string json
  | DELETE string
  | SLEEP nat

record rest_api =
  json_resp_get :: "event list \<Rightarrow> string \<Rightarrow> exn + json"
  json_resp_post :: "event list \<Rightarrow> string \<Rightarrow> json \<Rightarrow> exn + json"
  json_resp_delete :: "event list \<Rightarrow> string \<Rightarrow> exn + json"

definition rest_get :: "rest_api \<Rightarrow> event list \<Rightarrow> string \<Rightarrow> (exn + json) \<times> event list" where
  "rest_get rest h uri = (json_resp_get rest h uri, h @ [GET uri])"

definition rest_post ::
  "rest_api \<Rightarrow> event list \<Rightarrow> string \<Rightarrow> json \<Rightarrow> (exn + json) \<times> event list" where
  "rest_post rest h uri data = (json_resp_post rest h uri data, h @ [POST uri data])"

definition rest_delete :: "rest_api \<Rightarrow> event list \<Rightarrow> string \<Rightarrow> (exn + json) \<times> event list" where
  "rest_delete rest h uri = (json_resp_delete rest h uri, h @ [DELETE uri])"

text \<open>\<^verbatim>\<open>time.sleep(n)\<close>.\<close>

definition sleep :: "nat \<Rightarrow> event list \<Rightarrow> event list" where
  "sleep n h = h @ [SLEEP n]"

section \<open>The records of the module\<close>

record SystemAgent =
  sa_id :: json
  sa_fqdn :: json
  sa_operation_mode :: json
  sa_vendor :: json

record Anomaly =
  an_type :: json
  an_id :: json
  an_agent_id :: json
  an_severity :: json

record DevicePackage =
  pkg_name :: json
  pkg_version :: json

record DeviceOSImage =
  img_description :: json
  img_checksum :: json
  img_image_name :: json
  img_platform :: json
  img_image_url :: json
  img_type :: json
  img_id :: json

section \<open>AosManagedDevices\<close>

text \<open>The element expression of the comprehension in \<^verbatim>\<open>get_all\<close>; the keyword
  arguments are evaluated left to right.\<close>

definition system_agent_of :: "json \<Rightarrow> exn + SystemAgent" where
  "system_agent_of s =
     (case subscript s ''id'' of Inl e \<Rightarrow> Inl e | Inr i \<Rightarrow>
      case py_get s ''status'' (JDict []) of Inl e \<Rightarrow> Inl e | Inr st1 \<Rightarrow>
      case py_get st1 ''fqdn'' JNull of Inl e \<Rightarrow> Inl e | Inr f \<Rightarrow>
      case py_get s ''status'' (JDict []) of Inl e \<Rightarrow> Inl e | Inr st2 \<Rightarrow>
      case py_get st2 ''operation_mode'' JNull of Inl e \<Rightarrow> Inl e | Inr m \<Rightarrow>
      case py_get s ''facts'' (JDict []) of Inl e \<Rightarrow> Inl e | Inr fa \<Rightarrow>
      case py_get fa ''vendor'' JNull of Inl e \<Rightarrow> Inl e | Inr v \<Rightarrow>
      Inr \<lparr>sa_id = i, sa_fqdn = f, sa_operation_mode = m, sa_vendor = v\<rparr>)"

definition managed_devices_get_all ::
  "rest_api \<Rightarrow> event list \<Rightarrow> (exn + SystemAgent list) \<times> event list" where
  "managed_devices_get_all rest h =
     (case rest_get rest h ''/api/systems'' of
        (Inl e, h1) \<Rightarrow> (Inl e, h1)
      | (Inr systems, h1) \<Rightarrow>
          if systems = JNull then (Inr [], h1)
          else
            (case subscript systems ''items'' of Inl e \<Rightarrow> (Inl e, h1) | Inr items \<Rightarrow>
             case py_iter items of Inl e \<Rightarrow> (Inl e, h1) | Inr ss \<Rightarrow>
             (comprehension system_agent_of ss, h1)))"

text \<open>The element expression yielded by \<^verbatim>\<open>_iter_anomalies\<close>.\<close>

definition anomaly_of :: "json \<Rightarrow> exn + Anomaly" where
  "anomaly_of anomaly =
     (case subscript anomaly ''anomaly_type'' of Inl e \<Rightarrow> Inl e | Inr t \<Rightarrow>
      case subscript anomaly ''id'' of Inl e \<Rightarrow> Inl e | Inr i \<Rightarrow>
      case py_get anomaly ''identity'' (JDict []) of Inl e \<Rightarrow> Inl e | Inr idn \<Rightarrow>
      case py_get idn ''system_id'' JNull of Inl e \<Rightarrow> Inl e | Inr a \<Rightarrow>
      case subscript anomaly ''severity'' of Inl e \<Rightarrow> Inl e | Inr sv \<Rightarrow>
      Inr \<lparr>an_type = t, an_id = i, an_agent_id = a, an_severity = sv\<rparr>)"

text \<open>
  \<^verbatim>\<open>_iter_anomalies\<close> is a generator. Its only effect, the GET, happens when the
  consumer asks for the first element; after that each request for an element either
  yields an \<open>Anomaly\<close> or raises, and raising ends the generator. It is modelled by the
  sequence of these outcomes: \<open>Inr a\<close> for a yield, \<open>Inl e\<close> for a raise. A consumer
  that stops early never sees the later outcomes.
\<close>

definition iter_anomalies ::
  "rest_api \<Rightarrow> event list \<Rightarrow> string \<Rightarrow> (exn + Anomaly) list \<times> event list" where
  "iter_anomalies rest h system_agent_id =
     (case rest_get rest h (''api/systems/'' @ system_agent_id @ ''/anomalies'') of
        (Inl e, h1) \<Rightarrow> ([Inl e], h1)
      | (Inr anomalies, h1) \<Rightarrow>
          if anomalies = JNull then ([], h1)
          else
            (case subscript anomalies ''items'' of Inl e \<Rightarrow> ([Inl e], h1) | Inr items \<Rightarrow>
             case py_iter items of Inl e \<Rightarrow> ([Inl e], h1) | Inr xs \<Rightarrow>
             (map anomaly_of xs, h1)))"

text \<open>\<^verbatim>\<open>list(gen)\<close>: collect the yields; a raise propagates.\<close>

fun list_of_gen :: "(exn + 'a) list \<Rightarrow> exn + 'a list" where
  "list_of_gen [] = Inr []"
| "list_of_gen (Inl e # outs) = Inl e"
| "list_of_gen (Inr a # outs) =
     (case list_of_gen outs of Inl e \<Rightarrow> Inl e | Inr as \<Rightarrow> Inr (a # as))"

definition get_anomalies ::
  "rest_api \<Rightarrow> event list \<Rightarrow> string \<Rightarrow> (exn + Anomaly list) \<times> event list" where
  "get_anomalies rest h system_agent_id =
     (case iter_anomalies rest h system_agent_id of (outs, h1) \<Rightarrow> (list_of_gen outs, h1))"

definition has_anomalies ::
  "rest_api \<Rightarrow> event list \<Rightarrow> string \<Rightarrow> (exn + bool) \<times> event list" where
  "has_anomalies rest h system_agent_id =
     (case get_anomalies rest h system_agent_id of
        (Inl e, h1) \<Rightarrow> (Inl e, h1)
      | (Inr as, h1) \<Rightarrow> (Inr (as \<noteq> []), h1))"

text \<open>The \<^verbatim>\<open>for\<close> loop of \<^verbatim>\<open>has_anomalies_of_type\<close> over the generator. The
  argument \<^verbatim>\<open>anomaly_type\<close> is a \<^verbatim>\<open>str\<close>, so \<^verbatim>\<open>anomaly.type == anomaly_type\<close>
  holds exactly when the field is that string.\<close>

fun has_anomalies_of_type_loop :: "string \<Rightarrow> (exn + Anomaly) list \<Rightarrow> exn + bool" where
  "has_anomalies_of_type_loop anomaly_type [] = Inr False"
| "has_anomalies_of_type_loop anomaly_type (Inl e # outs) = Inl e"
| "has_anomalies_of_type_loop anomaly_type (Inr anomaly # outs) =
     (if an_type anomaly = JStr anomaly_type then Inr True
      else has_anomalies_of_type_loop anomaly_type outs)"

definition has_anomalies_of_type ::
  "rest_api \<Rightarrow> event list \<Rightarrow> string \<Rightarrow> string \<Rightarrow> (exn + bool) \<times> event list" where
  "has_anomalies_of_type rest h system_agent_id anomaly_type =
     (case iter_anomalies rest h system_agent_id of
        (outs, h1) \<Rightarrow> (has_anomalies_of_type_loop anomaly_type outs, h1))"

section \<open>AosSystemAgents\<close>

definition device_package_of :: "json \<Rightarrow> exn + DevicePackage" where
  "device_package_of package =
     (case subscript package ''name'' of Inl e \<Rightarrow> Inl e | Inr n \<Rightarrow>
      case subscript package ''version'' of Inl e \<Rightarrow> Inl e | Inr v \<Rightarrow>
      Inr \<lparr>pkg_name = n, pkg_version = v\<rparr>)"

definition get_packages ::
  "rest_api \<Rightarrow> event list \<Rightarrow> (exn + DevicePackage list) \<times> event list" where
  "get_packages rest h =
     (case rest_get rest h ''/api/packages'' of
        (Inl e, h1) \<Rightarrow> (Inl e, h1)
      | (Inr resp, h1) \<Rightarrow>
          (case subscript resp ''items'' of Inl e \<Rightarrow> (Inl e, h1) | Inr items \<Rightarrow>
           case py_iter items of Inl e \<Rightarrow> (Inl e, h1) | Inr ps \<Rightarrow>
           (comprehension device_package_of ps, h1)))"

definition device_os_image_of :: "json \<Rightarrow> exn + DeviceOSImage" where
  "device_os_image_of img =
     (case subscript img ''description'' of Inl e \<Rightarrow> Inl e | Inr d \<Rightarrow>
      case subscript img ''checksum'' of Inl e \<Rightarrow> Inl e | Inr c \<Rightarrow>
      case subscript img ''image_name'' of Inl e \<Rightarrow> Inl e | Inr n \<Rightarrow>
      case subscript img ''platform'' of Inl e \<Rightarrow> Inl e | Inr p \<Rightarrow>
      case subscript img ''image_url'' of Inl e \<Rightarrow> Inl e | Inr u \<Rightarrow>
      case subscript img ''type'' of Inl e \<Rightarrow> Inl e | Inr t \<Rightarrow>
      case subscript img ''id'' of Inl e \<Rightarrow> Inl e | Inr i \<Rightarrow>
      Inr \<lparr>img_description = d, img_checksum = c, img_image_name = n, img_platform = p,
           img_image_url = u, img_type = t, img_id = i\<rparr>)"

definition get_os_images ::
  "rest_api \<Rightarrow> event list \<Rightarrow> (exn + DeviceOSImage list) \<times> event list" where
  "get_os_images rest h =
     (case rest_get rest h ''/api/device-os/images'' of
        (Inl e, h1) \<Rightarrow> (Inl e, h1)
      | (Inr resp, h1) \<Rightarrow>
          (case subscript resp ''items'' of Inl e \<Rightarrow> (Inl e, h1) | Inr items \<Rightarrow>
           case py_iter items of Inl e \<Rightarrow> (Inl e, h1) | Inr imgs \<Rightarrow>
           (comprehension device_os_image_of imgs, h1)))"

section \<open>AosDeviceProfiles\<close>

definition device_profiles_get_all ::
  "rest_api \<Rightarrow> event list \<Rightarrow> (exn + json) \<times> event list" where
  "device_profiles_get_all rest h = rest_get rest h ''/api/device-profiles''"

text \<open>The \<^verbatim>\<open>for\<close> loop of \<^verbatim>\<open>get_device_profile\<close> with the \<^verbatim>\<open>raise\<close> that follows
  it. \<^verbatim>\<open>dp_name\<close> is a \<^verbatim>\<open>str\<close>, so the comparison holds exactly when the field
  is that string.\<close>

fun get_device_profile_loop :: "string \<Rightarrow> json list \<Rightarrow> exn + json" where
  "get_device_profile_loop dp_name [] =
     Inl (AosAPIError (''External Router '' @ dp_name @ '' not found''))"
| "get_device_profile_loop dp_name (dp # dps) =
     (case py_get dp ''display_name'' JNull of
        Inl e \<Rightarrow> Inl e
      | Inr v \<Rightarrow> if v = JStr dp_name then Inr dp else get_device_profile_loop dp_name dps)"

text \<open>An optional \<^verbatim>\<open>str\<close> argument (default \<^verbatim>\<open>None\<close>): its truth value, and its
  rendering inside an f-string.\<close>

fun given :: "string option \<Rightarrow> bool" where
  "given None = False"
| "given (Some s) = (s \<noteq> [])"

fun fmt :: "string option \<Rightarrow> string" where
  "fmt None = ''None''"
| "fmt (Some s) = s"

definition get_device_profile ::
  "rest_api \<Rightarrow> event list \<Rightarrow> string option \<Rightarrow> string option \<Rightarrow> (exn + json) \<times> event list" where
  "get_device_profile rest h dp_id dp_name =
     (if given dp_name then
        (case device_profiles_get_all rest h of
           (Inl e, h1) \<Rightarrow> (Inl e, h1)
         | (Inr dev_profs, h1) \<Rightarrow>
             if truthy dev_profs then
               (case py_iter dev_profs of
                  Inl e \<Rightarrow> (Inl e, h1)
                | Inr dps \<Rightarrow> (get_device_profile_loop (fmt dp_name) dps, h1))
             else rest_get rest h1 (''/api/device-profiles/'' @ fmt dp_id))
      else rest_get rest h (''/api/device-profiles/'' @ fmt dp_id))"

text \<open>The \<^verbatim>\<open>while\<close> loop of \<^verbatim>\<open>add_device_profiles\<close>, with its variables
  \<^verbatim>\<open>ids\<close> and \<^verbatim>\<open>i\<close>.\<close>

function add_device_profiles_loop ::
  "rest_api \<Rightarrow> json list \<Rightarrow> event list \<Rightarrow> json list \<Rightarrow> nat \<Rightarrow> (exn + json list) \<times> event list" where
  "add_device_profiles_loop rest dp_list h ids i =
     (if i < length dp_list then
        (case rest_post rest h ''/api/device-profiles'' (dp_list ! i) of
           (Inl e, h1) \<Rightarrow> (Inl e, h1)
         | (Inr resp, h1) \<Rightarrow>
             (case (if truthy resp
                    then (case subscript resp ''id'' of
                            Inl e \<Rightarrow> Inl e
                          | Inr v \<Rightarrow> Inr (ids @ [v]))
                    else Inr ids) of
                Inl e \<Rightarrow> (Inl e, h1)
              | Inr ids1 \<Rightarrow>
                  add_device_profiles_loop rest dp_list
                    (if (i + 1) mod 30 = 0 then sleep 3 h1 else h1) ids1 (i + 1)))
      else (Inr ids, h))"
  by pat_completeness auto
termination
  by (relation "measure (\<lambda>(rest, dp_list, h, ids, i). length dp_list - i)") auto

definition add_device_profiles ::
  "rest_api \<Rightarrow> event list \<Rightarrow> json list \<Rightarrow> (exn + json list) \<times> event list" where
  "add_device_profiles rest h dp_list = add_device_profiles_loop rest dp_list h [] 0"

text \<open>The \<^verbatim>\<open>for\<close> loop of \<^verbatim>\<open>delete_device_profiles\<close>; the ids are strings.\<close>

fun delete_device_profiles_loop ::
  "rest_api \<Rightarrow> event list \<Rightarrow> string list \<Rightarrow> string list \<Rightarrow> (exn + string list) \<times> event list" where
  "delete_device_profiles_loop rest h ids [] = (Inr ids, h)"
| "delete_device_profiles_loop rest h ids (dp_id # dp_list) =
     (case rest_delete rest h (''/api/device-profiles'' @ ''/'' @ dp_id) of
        (Inl e, h1) \<Rightarrow> (Inl e, h1)
      | (Inr r, h1) \<Rightarrow> delete_device_profiles_loop rest h1 (ids @ [dp_id]) dp_list)"

definition delete_device_profiles ::
  "rest_api \<Rightarrow> event list \<Rightarrow> string list \<Rightarrow> (exn + string list) \<times> event list" where
  "delete_device_profiles rest h dp_list = delete_device_profiles_loop rest h [] dp_list"

declare add_device_profiles_loop.simps [simp del]

section \<open>Clients and data used in the examples\<close>

text \<open>
  Three small clients stand in for \<^verbatim>\<open>self.rest\<close> where a statement is evaluated on a
  concrete input. \<open>stub_client body\<close> answers every GET with \<open>body\<close>;
  \<open>refusing_client bad\<close> raises on a DELETE of the path \<open>bad\<close>; \<open>echo_client\<close>
  answers a POST of a payload \<open>d\<close> with \<^verbatim>\<open>{"id": d}\<close>, and with \<^verbatim>\<open>None\<close> when
  the payload is \<^verbatim>\<open>None\<close>.
\<close>

definition stub_client :: "json \<Rightarrow> rest_api" where
  "stub_client body =
     \<lparr>json_resp_get = (\<lambda>h uri. Inr body),
      json_resp_post = (\<lambda>h uri data. Inr JNull),
      json_resp_delete = (\<lambda>h uri. Inr JNull)\<rparr>"

definition refusing_client :: "string \<Rightarrow> rest_api" where
  "refusing_client bad =
     \<lparr>json_resp_get = (\<lambda>h uri. Inr JNull),
      json_resp_post = (\<lambda>h uri data. Inr JNull),
      json_resp_delete = (\<lambda>h uri. if uri = bad then Inl (AosAPIError ''404'') else Inr JNull)\<rparr>"

definition echo_client :: rest_api where
  "echo_client =
     \<lparr>json_resp_get = (\<lambda>h uri. Inr JNull),
      json_resp_post = (\<lambda>h uri data. if data = JNull then Inr JNull
                                       else Inr (JDict [(''id'', data)])),
      json_resp_delete = (\<lambda>h uri. Inr JNull)\<rparr>"

definition example_anomalies :: json where
  "example_anomalies =
     JDict [(''items'', JList
       [JDict [(''anomaly_type'', JStr ''bgp''), (''id'', JStr ''a1''),
               (''severity'', JStr ''critical'')],
        JDict [(''anomaly_type'', JStr ''cabling''), (''id'', JStr ''a2''),
               (''identity'', JDict [(''system_id'', JStr ''s1'')]),
               (''severity'', JStr ''critical'')]])]"

definition example_image :: "(string \<times> json) list" where
  "example_image =
     [(''description'', JStr ''d''), (''checksum'', JStr ''c''), (''image_name'', JStr ''n''),
      (''platform'', JStr ''p''), (''image_url'', JStr ''u''), (''type'', JStr ''t''),
      (''id'', JStr ''i'')]"

section \<open>Vocabulary of the specification\<close>

text \<open>
  The definitions of this section follow the words of the specification, not the code;
  the theorems below compare the code with them.

  An object is a JSON dict. An object is \<open>named n\<close> when its \<^verbatim>\<open>display_name\<close> field
  is the string \<open>n\<close>.
\<close>

fun is_object :: "json \<Rightarrow> bool" where
  "is_object (JDict d) = True"
| "is_object _ = False"

fun named :: "string \<Rightarrow> json \<Rightarrow> bool" where
  "named n (JDict d) = (map_of d ''display_name'' = Some (JStr n))"
| "named n _ = False"

text \<open>
  The \<open>SystemAgent\<close> the specification describes for a raw item: the item is an
  object with an \<^verbatim>\<open>id\<close>; its \<^verbatim>\<open>status\<close> and \<^verbatim>\<open>facts\<close> are objects or absent,
  an absent one standing for the empty object; a missing nested key is a null field.
\<close>

definition field_or_null :: "(string \<times> json) list \<Rightarrow> string \<Rightarrow> json" where
  "field_or_null d k = (case map_of d k of None \<Rightarrow> JNull | Some v \<Rightarrow> v)"

definition sub_object :: "(string \<times> json) list \<Rightarrow> string \<Rightarrow> (string \<times> json) list option" where
  "sub_object d k =
     (case map_of d k of None \<Rightarrow> Some [] | Some (JDict sd) \<Rightarrow> Some sd | Some _ \<Rightarrow> None)"

fun spec_system_agent :: "json \<Rightarrow> SystemAgent option" where
  "spec_system_agent (JDict d) =
     (case (map_of d ''id'', sub_object d ''status'', sub_object d ''facts'') of
        (Some i, Some st, Some fa) \<Rightarrow>
          Some \<lparr>sa_id = i, sa_fqdn = field_or_null st ''fqdn'',
                sa_operation_mode = field_or_null st ''operation_mode'',
                sa_vendor = field_or_null fa ''vendor''\<rparr>
      | _ \<Rightarrow> None)"
| "spec_system_agent _ = None"

text \<open>
  A raw item carries the fields of a \<open>DevicePackage\<close>, or of a \<open>DeviceOSImage\<close>.
\<close>

fun is_package_of :: "json \<Rightarrow> DevicePackage \<Rightarrow> bool" where
  "is_package_of (JDict d) p =
     (map_of d ''name'' = Some (pkg_name p) \<and> map_of d ''version'' = Some (pkg_version p))"
| "is_package_of _ p = False"

definition os_image_keys :: "string list" where
  "os_image_keys =
     [''description'', ''checksum'', ''image_name'', ''platform'', ''image_url'', ''type'', ''id'']"

fun is_os_image_of :: "json \<Rightarrow> DeviceOSImage \<Rightarrow> bool" where
  "is_os_image_of (JDict d) r =
     (map_of d ''description'' = Some (img_description r) \<and>
      map_of d ''checksum'' = Some (img_checksum r) \<and>
      map_of d ''image_name'' = Some (img_image_name r) \<and>
      map_of d ''platform'' = Some (img_platform r) \<and>
      map_of d ''image_url'' = Some (img_image_url r) \<and>
      map_of d ''type'' = Some (img_type r) \<and>
      map_of d ''id'' = Some (img_id r))"
| "is_os_image_of _ r = False"

text \<open>
  The events of the first \<open>k\<close> submissions of a batch: each payload is posted to the
  collection path, and a pause of 3 follows every 30th submission, counted from 1.
\<close>

definition throttled_trace :: "json list \<Rightarrow> nat \<Rightarrow> event list" where
  "throttled_trace dp_list k =
     concat (map (\<lambda>j. POST ''/api/device-profiles'' (dp_list ! j) #
                        (if Suc j mod 30 = 0 then [SLEEP 3] else []))
                 [0..<k])"

text \<open>
  One DELETE per id, on the per-resource path, in input order.
\<close>

definition delete_trace :: "string list \<Rightarrow> event list" where
  "delete_trace dp_list = map (\<lambda>dp_id. DELETE (''/api/device-profiles/'' @ dp_id)) dp_list"

section \<open>Generic operations\<close>

lemma falsy_iff:
  "\<not> truthy v \<longleftrightarrow>
     v = JNull \<or> v = JBool False \<or> v = JInt 0 \<or> v = JFloat 0 \<or> v = JFloat 0x8000000000000000 \<or>
     v = JStr [] \<or> v = JList [] \<or> v = JDict []"
  by (cases v) auto

lemma is_object_iff: "is_object v \<longleftrightarrow> (\<exists>d. v = JDict d)"
  by (cases v) auto

lemma comprehension_all2:
  "list_all2 (\<lambda>x y. f x = Inr y) xs ys \<Longrightarrow> comprehension f xs = Inr ys"
  by (induction xs ys rule: list_all2_induct) auto

lemma comprehension_raises:
  "x \<in> set xs \<Longrightarrow> isl (f x) \<Longrightarrow> isl (comprehension f xs)"
  by (induction xs) (auto split: sum.splits)

section \<open>Anomalies\<close>

lemma iter_anomalies_trace:
  "snd (iter_anomalies rest h a) = h @ [GET (''api/systems/'' @ a @ ''/anomalies'')]"
  by (simp add: iter_anomalies_def rest_get_def split: sum.splits)

text \<open>
  Claim C7. The specification's interface table gives the anomalies path as
  \<^verbatim>\<open>/api/systems/{id}/anomalies\<close>. The three anomaly operations pass the client a path of
  one GET each, and that path is \<^verbatim>\<open>api/systems/{id}/anomalies\<close>, without the leading
  slash that every other path of the module has; the two strings differ for every id.
\<close>

theorem anomalies_path_lacks_leading_slash:
  "snd (get_anomalies rest h a) = h @ [GET (''api/systems/'' @ a @ ''/anomalies'')] \<and>
   snd (has_anomalies rest h a) = h @ [GET (''api/systems/'' @ a @ ''/anomalies'')] \<and>
   snd (has_anomalies_of_type rest h a t) = h @ [GET (''api/systems/'' @ a @ ''/anomalies'')] \<and>
   ''api/systems/'' @ a @ ''/anomalies'' \<noteq> ''/api/systems/'' @ a @ ''/anomalies''"
  using iter_anomalies_trace [of rest h a]
  by (auto simp: get_anomalies_def has_anomalies_def has_anomalies_of_type_def
      split: prod.splits sum.splits)

theorem anomalies_path_at_s1:
  "snd (get_anomalies (stub_client JNull) [] ''s1'') = [GET ''api/systems/s1/anomalies'']"
  by (simp add: get_anomalies_def iter_anomalies_def rest_get_def stub_client_def)

lemma loop_of_list:
  "list_of_gen outs = Inr as \<Longrightarrow>
   has_anomalies_of_type_loop t outs = Inr (\<exists>x\<in>set as. an_type x = JStr t)"
  by (induction outs arbitrary: as rule: list_of_gen.induct) (auto split: sum.splits)

lemma loop_of_raise:
  "list_of_gen outs = Inl e \<Longrightarrow>
   has_anomalies_of_type_loop t outs = Inr True \<or> has_anomalies_of_type_loop t outs = Inl e"
  by (induction outs rule: list_of_gen.induct) (auto split: sum.splits)

text \<open>
  Claim C3. Whenever \<^verbatim>\<open>get_anomalies(id)\<close> returns a list, \<^verbatim>\<open>has_anomalies(id)\<close>
  returns whether that list is non-empty, and \<^verbatim>\<open>has_anomalies_of_type(id, t)\<close> returns
  whether some anomaly of that list has type \<open>t\<close>; the three calls leave the same
  trace, so the early exit of the scan cannot be observed.
\<close>

theorem anomaly_checks_agree_with_list:
  assumes "get_anomalies rest h a = (Inr as, h1)"
  shows "has_anomalies rest h a = (Inr (as \<noteq> []), h1) \<and>
         has_anomalies_of_type rest h a t = (Inr (\<exists>x\<in>set as. an_type x = JStr t), h1)"
  using assms
  by (auto simp: has_anomalies_def has_anomalies_of_type_def get_anomalies_def loop_of_list
      split: prod.splits)

theorem anomaly_checks_agree_with_list_witness:
  "has_anomalies (stub_client example_anomalies) [] ''s1'' =
     (Inr True, [GET ''api/systems/s1/anomalies'']) \<and>
   has_anomalies_of_type (stub_client example_anomalies) [] ''s1'' ''cabling'' =
     (Inr True, [GET ''api/systems/s1/anomalies'']) \<and>
   has_anomalies_of_type (stub_client example_anomalies) [] ''s1'' ''route'' =
     (Inr False, [GET ''api/systems/s1/anomalies''])"
proof -
  have g: "get_anomalies (stub_client example_anomalies) [] ''s1'' =
     (Inr [\<lparr>an_type = JStr ''bgp'', an_id = JStr ''a1'', an_agent_id = JNull,
             an_severity = JStr ''critical''\<rparr>,
           \<lparr>an_type = JStr ''cabling'', an_id = JStr ''a2'', an_agent_id = JStr ''s1'',
             an_severity = JStr ''critical''\<rparr>],
      [GET ''api/systems/s1/anomalies''])"
    by (simp add: get_anomalies_def iter_anomalies_def rest_get_def stub_client_def
        example_anomalies_def anomaly_of_def)
  from anomaly_checks_agree_with_list [OF g, of "''cabling''"]
       anomaly_checks_agree_with_list [OF g, of "''route''"]
  show ?thesis by simp
qed

text \<open>
  The hypothesis of the last theorem matters only for a body with a malformed item:
  there the scan answers before it reaches the item, while building the full list
  raises.
\<close>

theorem anomaly_scan_stops_before_malformed:
  "has_anomalies_of_type
     (stub_client (JDict [(''items'', JList
        [JDict [(''anomaly_type'', JStr ''bgp''), (''id'', JStr ''a1''),
                (''severity'', JStr ''critical'')],
         JDict []])]))
     [] ''s1'' ''bgp'' = (Inr True, [GET ''api/systems/s1/anomalies'']) \<and>
   get_anomalies
     (stub_client (JDict [(''items'', JList
        [JDict [(''anomaly_type'', JStr ''bgp''), (''id'', JStr ''a1''),
                (''severity'', JStr ''critical'')],
         JDict []])]))
     [] ''s1'' = (Inl (KeyError ''anomaly_type''), [GET ''api/systems/s1/anomalies''])"
  by (simp add: has_anomalies_of_type_def get_anomalies_def iter_anomalies_def rest_get_def
      stub_client_def anomaly_of_def)

section \<open>Managed devices, packages and OS images\<close>

lemma system_agent_of_spec:
  "spec_system_agent s = Some a \<Longrightarrow> system_agent_of s = Inr a"
  by (cases s)
     (auto simp: system_agent_of_def sub_object_def field_or_null_def
           split: option.splits json.splits)

text \<open>
  Claim C4. \<^verbatim>\<open>AosManagedDevices.get_all\<close> returns the empty list for an absent
  body. For a body whose \<^verbatim>\<open>items\<close> is a list of raw items as the specification
  describes them, it returns their \<open>SystemAgent\<close>s in order, with null fields for what
  is missing under an absent \<^verbatim>\<open>status\<close> or \<^verbatim>\<open>facts\<close>. The item of the
  specification's example maps to the agent the specification gives.
\<close>

theorem managed_devices_get_all_tolerant:
  "(json_resp_get rest h ''/api/systems'' = Inr JNull \<longrightarrow>
      managed_devices_get_all rest h = (Inr [], h @ [GET ''/api/systems''])) \<and>
   (json_resp_get rest h ''/api/systems'' = Inr (JDict body) \<and>
    map_of body ''items'' = Some (JList items) \<and>
    list_all2 (\<lambda>s a. spec_system_agent s = Some a) items agents \<longrightarrow>
      managed_devices_get_all rest h = (Inr agents, h @ [GET ''/api/systems''])) \<and>
   system_agent_of
     (JDict [(''id'', JStr ''s1''), (''status'', JDict [(''fqdn'', JStr ''sw1'')]),
             (''facts'', JDict [])]) =
     Inr \<lparr>sa_id = JStr ''s1'', sa_fqdn = JStr ''sw1'', sa_operation_mode = JNull,
          sa_vendor = JNull\<rparr>"
proof (intro conjI impI)
  assume "json_resp_get rest h ''/api/systems'' = Inr JNull"
  then show "managed_devices_get_all rest h = (Inr [], h @ [GET ''/api/systems''])"
    by (simp add: managed_devices_get_all_def rest_get_def)
next
  assume a: "json_resp_get rest h ''/api/systems'' = Inr (JDict body) \<and>
    map_of body ''items'' = Some (JList items) \<and>
    list_all2 (\<lambda>s a. spec_system_agent s = Some a) items agents"
  then have "list_all2 (\<lambda>s a. system_agent_of s = Inr a) items agents"
    by (auto elim: list_all2_mono simp: system_agent_of_spec)
  then have "comprehension system_agent_of items = Inr agents"
    by (rule comprehension_all2)
  with a show "managed_devices_get_all rest h = (Inr agents, h @ [GET ''/api/systems''])"
    by (simp add: managed_devices_get_all_def rest_get_def)
next
  show "system_agent_of
     (JDict [(''id'', JStr ''s1''), (''status'', JDict [(''fqdn'', JStr ''sw1'')]),
             (''facts'', JDict [])]) =
     Inr \<lparr>sa_id = JStr ''s1'', sa_fqdn = JStr ''sw1'', sa_operation_mode = JNull,
          sa_vendor = JNull\<rparr>"
    by (simp add: system_agent_of_def)
qed

theorem managed_devices_get_all_tolerant_witness:
  "managed_devices_get_all (stub_client JNull) [] = (Inr [], [GET ''/api/systems'']) \<and>
   managed_devices_get_all
     (stub_client (JDict [(''items'', JList
        [JDict [(''id'', JStr ''s1''), (''status'', JDict [(''fqdn'', JStr ''sw1'')]),
                (''facts'', JDict [])],
         JDict [(''id'', JStr ''s2'')]])]))
     [] =
     (Inr [\<lparr>sa_id = JStr ''s1'', sa_fqdn = JStr ''sw1'', sa_operation_mode = JNull,
             sa_vendor = JNull\<rparr>,
           \<lparr>sa_id = JStr ''s2'', sa_fqdn = JNull, sa_operation_mode = JNull,
             sa_vendor = JNull\<rparr>],
      [GET ''/api/systems''])"
  using managed_devices_get_all_tolerant [of "stub_client JNull" "[]"]
    managed_devices_get_all_tolerant
      [of "stub_client (JDict [(''items'', JList
             [JDict [(''id'', JStr ''s1''), (''status'', JDict [(''fqdn'', JStr ''sw1'')]),
                     (''facts'', JDict [])],
              JDict [(''id'', JStr ''s2'')]])])"
          "[]"
          "[(''items'', JList
             [JDict [(''id'', JStr ''s1''), (''status'', JDict [(''fqdn'', JStr ''sw1'')]),
                     (''facts'', JDict [])],
              JDict [(''id'', JStr ''s2'')]])]"
          "[JDict [(''id'', JStr ''s1''), (''status'', JDict [(''fqdn'', JStr ''sw1'')]),
                   (''facts'', JDict [])],
            JDict [(''id'', JStr ''s2'')]]"
          "[\<lparr>sa_id = JStr ''s1'', sa_fqdn = JStr ''sw1'', sa_operation_mode = JNull,
              sa_vendor = JNull\<rparr>,
            \<lparr>sa_id = JStr ''s2'', sa_fqdn = JNull, sa_operation_mode = JNull,
              sa_vendor = JNull\<rparr>]"]
  by (simp add: stub_client_def sub_object_def field_or_null_def)

lemma device_package_of_spec: "is_package_of p r \<Longrightarrow> device_package_of p = Inr r"
  by (cases p) (auto simp: device_package_of_def)

text \<open>
  Claim C8. \<^verbatim>\<open>get_packages\<close> has no null check: for an absent body the call raises
  (a \<open>TypeError\<close>, from subscripting \<^verbatim>\<open>None\<close>) instead of returning an empty list.
  For a body whose \<^verbatim>\<open>items\<close> is a list of objects with \<^verbatim>\<open>name\<close> and
  \<^verbatim>\<open>version\<close>, it returns the packages with these two fields, in order.
\<close>

theorem get_packages_no_null_check:
  "(json_resp_get rest h ''/api/packages'' = Inr JNull \<longrightarrow>
      get_packages rest h = (Inl TypeError, h @ [GET ''/api/packages''])) \<and>
   (json_resp_get rest h ''/api/packages'' = Inr (JDict body) \<and>
    map_of body ''items'' = Some (JList items) \<and>
    list_all2 is_package_of items packages \<longrightarrow>
      get_packages rest h = (Inr packages, h @ [GET ''/api/packages'']))"
proof (intro conjI impI)
  assume "json_resp_get rest h ''/api/packages'' = Inr JNull"
  then show "get_packages rest h = (Inl TypeError, h @ [GET ''/api/packages''])"
    by (simp add: get_packages_def rest_get_def)
next
  assume a: "json_resp_get rest h ''/api/packages'' = Inr (JDict body) \<and>
    map_of body ''items'' = Some (JList items) \<and>
    list_all2 is_package_of items packages"
  then have "list_all2 (\<lambda>p r. device_package_of p = Inr r) items packages"
    by (auto elim: list_all2_mono simp: device_package_of_spec)
  then have "comprehension device_package_of items = Inr packages"
    by (rule comprehension_all2)
  with a show "get_packages rest h = (Inr packages, h @ [GET ''/api/packages''])"
    by (simp add: get_packages_def rest_get_def)
qed

theorem get_packages_no_null_check_witness:
  "get_packages (stub_client JNull) [] = (Inl TypeError, [GET ''/api/packages'']) \<and>
   get_packages
     (stub_client (JDict [(''items'', JList
        [JDict [(''name'', JStr ''aos-agent''), (''version'', JStr ''3.3.0'')]])]))
     [] =
     (Inr [\<lparr>pkg_name = JStr ''aos-agent'', pkg_version = JStr ''3.3.0''\<rparr>],
      [GET ''/api/packages''])"
  using get_packages_no_null_check [of "stub_client JNull" "[]"]
    get_packages_no_null_check
      [of "stub_client (JDict [(''items'', JList
             [JDict [(''name'', JStr ''aos-agent''), (''version'', JStr ''3.3.0'')]])])"
          "[]"
          "[(''items'', JList
             [JDict [(''name'', JStr ''aos-agent''), (''version'', JStr ''3.3.0'')]])]"
          "[JDict [(''name'', JStr ''aos-agent''), (''version'', JStr ''3.3.0'')]]"
          "[\<lparr>pkg_name = JStr ''aos-agent'', pkg_version = JStr ''3.3.0''\<rparr>]"]
  by (simp add: stub_client_def)

lemma device_os_image_of_spec: "is_os_image_of x r \<Longrightarrow> device_os_image_of x = Inr r"
  by (cases x) (auto simp: device_os_image_of_def)

lemma device_os_image_of_missing:
  "k \<in> set os_image_keys \<Longrightarrow> map_of d k = None \<Longrightarrow> isl (device_os_image_of (JDict d))"
  by (auto simp: os_image_keys_def device_os_image_of_def split: option.splits)

text \<open>
  Claim C9. For a body whose \<^verbatim>\<open>items\<close> is a list, \<^verbatim>\<open>get_os_images\<close> returns the
  images when every item carries all seven fields, and raises as soon as some item is an
  object that lacks one of the seven keys; no field is ever replaced by null.
\<close>

theorem get_os_images_requires_all_fields:
  assumes "json_resp_get rest h ''/api/device-os/images'' = Inr (JDict body)"
    and "map_of body ''items'' = Some (JList items)"
  shows "(list_all2 is_os_image_of items images \<longrightarrow>
            get_os_images rest h = (Inr images, h @ [GET ''/api/device-os/images''])) \<and>
         (JDict d \<in> set items \<and> k \<in> set os_image_keys \<and> map_of d k = None \<longrightarrow>
            isl (fst (get_os_images rest h)) \<and>
            snd (get_os_images rest h) = h @ [GET ''/api/device-os/images''])"
proof (intro conjI impI)
  assume "list_all2 is_os_image_of items images"
  then have "list_all2 (\<lambda>x r. device_os_image_of x = Inr r) items images"
    by (auto elim: list_all2_mono simp: device_os_image_of_spec)
  then have "comprehension device_os_image_of items = Inr images"
    by (rule comprehension_all2)
  with assms show "get_os_images rest h = (Inr images, h @ [GET ''/api/device-os/images''])"
    by (simp add: get_os_images_def rest_get_def)
next
  assume a: "JDict d \<in> set items \<and> k \<in> set os_image_keys \<and> map_of d k = None"
  then have "isl (comprehension device_os_image_of items)"
    by (auto intro: comprehension_raises device_os_image_of_missing)
  with assms show "isl (fst (get_os_images rest h))"
    by (simp add: get_os_images_def rest_get_def)
  from assms show "snd (get_os_images rest h) = h @ [GET ''/api/device-os/images'']"
    by (simp add: get_os_images_def rest_get_def)
qed

theorem get_os_images_requires_all_fields_witness:
  "get_os_images (stub_client (JDict [(''items'', JList [JDict example_image])])) [] =
     (Inr [\<lparr>img_description = JStr ''d'', img_checksum = JStr ''c'',
             img_image_name = JStr ''n'', img_platform = JStr ''p'',
             img_image_url = JStr ''u'', img_type = JStr ''t'', img_id = JStr ''i''\<rparr>],
      [GET ''/api/device-os/images'']) \<and>
   isl (fst (get_os_images
     (stub_client (JDict [(''items'', JList [JDict example_image, JDict (tl example_image)])]))
     []))"
proof -
  have 1: "get_os_images (stub_client (JDict [(''items'', JList [JDict example_image])])) [] =
     (Inr [\<lparr>img_description = JStr ''d'', img_checksum = JStr ''c'',
             img_image_name = JStr ''n'', img_platform = JStr ''p'',
             img_image_url = JStr ''u'', img_type = JStr ''t'', img_id = JStr ''i''\<rparr>],
      [GET ''/api/device-os/images''])"
    using get_os_images_requires_all_fields
      [of "stub_client (JDict [(''items'', JList [JDict example_image])])" "[]"
          "[(''items'', JList [JDict example_image])]" "[JDict example_image]"
          "[\<lparr>img_description = JStr ''d'', img_checksum = JStr ''c'',
              img_image_name = JStr ''n'', img_platform = JStr ''p'',
              img_image_url = JStr ''u'', img_type = JStr ''t'', img_id = JStr ''i''\<rparr>]"]
    by (simp add: stub_client_def example_image_def)
  have 2: "isl (fst (get_os_images
     (stub_client (JDict [(''items'', JList [JDict example_image, JDict (tl example_image)])]))
     []))"
    using get_os_images_requires_all_fields
      [of "stub_client (JDict [(''items'', JList [JDict example_image, JDict (tl example_image)])])"
          "[]"
          "[(''items'', JList [JDict example_image, JDict (tl example_image)])]"
          "[JDict example_image, JDict (tl example_image)]"
          _ "tl example_image" "''description''"]
    by (simp add: stub_client_def example_image_def os_image_keys_def)
  from 1 2 show ?thesis by simp
qed

section \<open>Device profiles: lookup\<close>

lemma loop_find:
  "list_all is_object dps \<Longrightarrow>
   get_device_profile_loop n dps =
     (case find (named n) dps of
        Some dp \<Rightarrow> Inr dp
      | None \<Rightarrow> Inl (AosAPIError (''External Router '' @ n @ '' not found'')))"
proof (induction dps)
  case Nil
  then show ?case by simp
next
  case (Cons dp dps)
  then obtain d where "dp = JDict d" by (cases dp) auto
  with Cons show ?case by (auto split: option.splits)
qed

text \<open>
  Claim C1, as amended. When a non-empty name is given and \<^verbatim>\<open>get_all()\<close> returns a
  non-empty list of objects, \<^verbatim>\<open>get_device_profile\<close> returns the first object whose
  \<^verbatim>\<open>display_name\<close> is the name, and raises \<open>AosAPIError\<close> with a message built from
  the name when there is none; whether or not an id is given, the only request is the
  GET of the collection.
\<close>

theorem get_device_profile_by_name:
  assumes "given dp_name"
    and "json_resp_get rest h ''/api/device-profiles'' = Inr (JList dps)"
    and "dps \<noteq> []"
    and "list_all is_object dps"
  shows "get_device_profile rest h dp_id dp_name =
     ((case find (named (fmt dp_name)) dps of
         Some dp \<Rightarrow> Inr dp
       | None \<Rightarrow> Inl (AosAPIError (''External Router '' @ fmt dp_name @ '' not found''))),
      h @ [GET ''/api/device-profiles''])"
  using assms
  by (simp add: get_device_profile_def device_profiles_get_all_def rest_get_def loop_find)

theorem get_device_profile_by_name_witness:
  "get_device_profile
     (stub_client (JList
        [JDict [(''id'', JStr ''1''), (''display_name'', JStr ''A'')],
         JDict [(''id'', JStr ''2''), (''display_name'', JStr ''X'')],
         JDict [(''id'', JStr ''3''), (''display_name'', JStr ''X'')]]))
     [] (Some ''9'') (Some ''X'') =
     (Inr (JDict [(''id'', JStr ''2''), (''display_name'', JStr ''X'')]),
      [GET ''/api/device-profiles'']) \<and>
   get_device_profile
     (stub_client (JList [JDict [(''id'', JStr ''1''), (''display_name'', JStr ''A'')]]))
     [] (Some ''9'') (Some ''X'') =
     (Inl (AosAPIError ''External Router X not found''), [GET ''/api/device-profiles''])"
  using get_device_profile_by_name
    [of "Some ''X''"
        "stub_client (JList
          [JDict [(''id'', JStr ''1''), (''display_name'', JStr ''A'')],
           JDict [(''id'', JStr ''2''), (''display_name'', JStr ''X'')],
           JDict [(''id'', JStr ''3''), (''display_name'', JStr ''X'')]])"
        "[]"
        "[JDict [(''id'', JStr ''1''), (''display_name'', JStr ''A'')],
          JDict [(''id'', JStr ''2''), (''display_name'', JStr ''X'')],
          JDict [(''id'', JStr ''3''), (''display_name'', JStr ''X'')]]"
        "Some ''9''"]
    get_device_profile_by_name
    [of "Some ''X''"
        "stub_client (JList [JDict [(''id'', JStr ''1''), (''display_name'', JStr ''A'')]])"
        "[]"
        "[JDict [(''id'', JStr ''1''), (''display_name'', JStr ''A'')]]"
        "Some ''9''"]
  by (simp add: stub_client_def)

text \<open>
  The claim as first stated also covers the empty collection. There no error is raised:
  the call goes on to the GET by id.
\<close>

theorem get_device_profile_empty_collection:
  "get_device_profile (stub_client (JList [])) [] (Some ''dp1'') (Some ''X'') =
     (Inr (JList []), [GET ''/api/device-profiles'', GET ''/api/device-profiles/dp1''])"
  by (simp add: get_device_profile_def device_profiles_get_all_def rest_get_def stub_client_def)

lemma get_device_profile_falsy:
  assumes "given dp_name"
    and "json_resp_get rest h ''/api/device-profiles'' = Inr dev_profs"
    and "\<not> truthy dev_profs"
  shows "get_device_profile rest h dp_id dp_name =
     (json_resp_get rest (h @ [GET ''/api/device-profiles''])
        (''/api/device-profiles/'' @ fmt dp_id),
      h @ [GET ''/api/device-profiles'', GET (''/api/device-profiles/'' @ fmt dp_id)])"
  using assms
  by (simp add: get_device_profile_def device_profiles_get_all_def rest_get_def)

text \<open>
  Claim C10. Let a non-empty name \<open>n\<close> be given and let \<^verbatim>\<open>get_all()\<close> return
  \<^verbatim>\<open>None\<close>, the empty list or the empty dict. Then no not-found error is raised:
  after the GET of the collection the call issues a second GET and returns its answer,
  whatever it is. With an id \<open>i\<close> the second path is \<^verbatim>\<open>/api/device-profiles/\<close>
  followed by \<open>i\<close>; with no id it is \<^verbatim>\<open>/api/device-profiles/None\<close>.
\<close>

theorem get_device_profile_falls_through:
  assumes "n \<noteq> []"
    and "json_resp_get rest h ''/api/device-profiles'' = Inr dev_profs"
    and "dev_profs = JNull \<or> dev_profs = JList [] \<or> dev_profs = JDict []"
  shows "get_device_profile rest h (Some i) (Some n) =
           (json_resp_get rest (h @ [GET ''/api/device-profiles''])
              (''/api/device-profiles/'' @ i),
            h @ [GET ''/api/device-profiles'', GET (''/api/device-profiles/'' @ i)]) \<and>
         get_device_profile rest h None (Some n) =
           (json_resp_get rest (h @ [GET ''/api/device-profiles''])
              ''/api/device-profiles/None'',
            h @ [GET ''/api/device-profiles'', GET ''/api/device-profiles/None''])"
proof -
  from assms(3) have falsy: "\<not> truthy dev_profs"
    by auto
  from assms(1) have name: "given (Some n)"
    by simp
  from get_device_profile_falsy [OF name assms(2) falsy, of "Some i"]
       get_device_profile_falsy [OF name assms(2) falsy, of None]
  show ?thesis
    by simp
qed

theorem get_device_profile_falls_through_witness:
  "get_device_profile (stub_client (JList [])) [] (Some ''dp7'') (Some ''leaf'') =
     (Inr (JList []), [GET ''/api/device-profiles'', GET ''/api/device-profiles/dp7'']) \<and>
   get_device_profile (stub_client (JList [])) [] None (Some ''leaf'') =
     (Inr (JList []), [GET ''/api/device-profiles'', GET ''/api/device-profiles/None'']) \<and>
   get_device_profile (stub_client JNull) [] (Some ''dp7'') (Some ''leaf'') =
     (Inr JNull, [GET ''/api/device-profiles'', GET ''/api/device-profiles/dp7''])"
  using get_device_profile_falls_through
      [of "''leaf''" "stub_client (JList [])" "[]" "JList []" "''dp7''"]
    get_device_profile_falls_through
      [of "''leaf''" "stub_client JNull" "[]" JNull "''dp7''"]
  by (simp add: stub_client_def)

section \<open>Device profiles: batch creation\<close>

lemma throttled_trace_Suc:
  "throttled_trace dp_list (Suc k) =
     throttled_trace dp_list k @
       (POST ''/api/device-profiles'' (dp_list ! k) # (if Suc k mod 30 = 0 then [SLEEP 3] else []))"
  by (simp add: throttled_trace_def)

lemma throttled_trace_0: "throttled_trace dp_list 0 = []"
  by (simp add: throttled_trace_def)

lemma count_pauses: "count_list (throttled_trace dp_list n) (SLEEP 3) = n div 30"
  by (induction n) (simp_all add: throttled_trace_0 throttled_trace_Suc div_Suc)

lemma throttled_trace_short:
  "k < 30 \<Longrightarrow> k \<le> length dp_list \<Longrightarrow>
   throttled_trace dp_list k = map (POST ''/api/device-profiles'') (take k dp_list)"
proof (induction k)
  case 0
  then show ?case by (simp add: throttled_trace_0)
next
  case (Suc k)
  then have "Suc k mod 30 \<noteq> 0" by simp
  with Suc show ?case
    by (simp add: throttled_trace_Suc take_Suc_conv_app_nth)
qed

lemma throttled_trace_31:
  assumes "length dp_list = 31"
  shows "throttled_trace dp_list 31 =
     map (POST ''/api/device-profiles'') (take 30 dp_list) @
       [SLEEP 3, POST ''/api/device-profiles'' (dp_list ! 30)]"
proof -
  have a: "throttled_trace dp_list 29 = map (POST ''/api/device-profiles'') (take 29 dp_list)"
    using assms by (simp add: throttled_trace_short)
  have "throttled_trace dp_list (Suc (Suc 29)) =
     map (POST ''/api/device-profiles'') (take 29 dp_list) @
       [POST ''/api/device-profiles'' (dp_list ! 29), SLEEP 3,
        POST ''/api/device-profiles'' (dp_list ! 30)]"
    unfolding throttled_trace_Suc a by simp
  moreover have "take 30 dp_list = take 29 dp_list @ [dp_list ! 29]"
    using assms take_Suc_conv_app_nth [of 29 dp_list] by simp
  ultimately show ?thesis by simp
qed

lemma submissions_of_trace:
  "k \<le> length dp_list \<Longrightarrow>
   filter (\<lambda>e. e \<noteq> SLEEP 3) (throttled_trace dp_list k) =
     map (POST ''/api/device-profiles'') (take k dp_list)"
  by (induction k) (simp_all add: throttled_trace_0 throttled_trace_Suc take_Suc_conv_app_nth)

lemma add_loop_run:
  assumes "length outs = length dp_list"
    and "\<forall>k<length dp_list. \<exists>r.
           json_resp_post rest (h @ throttled_trace dp_list k) ''/api/device-profiles''
             (dp_list ! k) = Inr r \<and>
           (case outs ! k of
              None \<Rightarrow> \<not> truthy r
            | Some v \<Rightarrow> truthy r \<and> subscript r ''id'' = Inr v)"
    and "i \<le> length dp_list"
  shows "add_device_profiles_loop rest dp_list (h @ throttled_trace dp_list i) ids i =
     (Inr (ids @ List.map_filter (\<lambda>out. out) (drop i outs)),
      h @ throttled_trace dp_list (length dp_list))"
  using assms(3)
proof (induction "length dp_list - i" arbitrary: i ids)
  case 0
  then have "i = length dp_list" by simp
  with assms(1) show ?case
    by (subst add_device_profiles_loop.simps) (simp add: List.map_filter_simps)
next
  case (Suc d)
  then have lt: "i < length dp_list" by simp
  with assms(2) obtain r where
    r: "json_resp_post rest (h @ throttled_trace dp_list i) ''/api/device-profiles''
          (dp_list ! i) = Inr r"
    and o: "case outs ! i of
              None \<Rightarrow> \<not> truthy r
            | Some v \<Rightarrow> truthy r \<and> subscript r ''id'' = Inr v"
    by blast
  have h': "Suc i mod 30 = 0 \<Longrightarrow>
             sleep 3 ((h @ throttled_trace dp_list i) @
               [POST ''/api/device-profiles'' (dp_list ! i)]) =
             h @ throttled_trace dp_list (Suc i)"
           "0 < Suc i mod 30 \<Longrightarrow>
             (h @ throttled_trace dp_list i) @
               [POST ''/api/device-profiles'' (dp_list ! i)] =
             h @ throttled_trace dp_list (Suc i)"
    by (simp_all add: throttled_trace_Suc sleep_def)
  have d: "drop i outs = outs ! i # drop (Suc i) outs"
    using lt assms(1) by (simp add: Cons_nth_drop_Suc)
  have ih: "\<And>ids'. add_device_profiles_loop rest dp_list (h @ throttled_trace dp_list (Suc i))
              ids' (Suc i) =
            (Inr (ids' @ List.map_filter (\<lambda>out. out) (drop (Suc i) outs)),
             h @ throttled_trace dp_list (length dp_list))"
    using Suc(1) [of "Suc i"] Suc(2) lt by simp
  show ?case
  proof (cases "outs ! i")
    case None
    with o have "\<not> truthy r" by simp
    then show ?thesis
      using lt r None d ih [of ids]
      by (subst add_device_profiles_loop.simps)
         (simp add: rest_post_def h' List.map_filter_simps del: append_assoc)
  next
    case (Some v)
    with o have "truthy r" "subscript r ''id'' = Inr v" by simp_all
    then show ?thesis
      using lt r Some d ih [of "ids @ [v]"]
      by (subst add_device_profiles_loop.simps)
         (simp add: rest_post_def h' List.map_filter_simps del: append_assoc)
  qed
qed

lemma map_filter_Some: "List.map_filter (\<lambda>out. out) (map Some xs) = xs"
  by (induction xs) (simp_all add: List.map_filter_simps)

lemma length_map_filter_le: "length (List.map_filter (\<lambda>out. out) outs) \<le> length outs"
  by (induction outs) (auto simp: List.map_filter_simps split: option.splits)

lemma length_map_filter_less:
  "length (List.map_filter (\<lambda>out. out) outs) < length outs \<longleftrightarrow> None \<in> set outs"
proof (induction outs)
  case Nil
  then show ?case by (simp add: List.map_filter_simps)
next
  case (Cons out outs)
  show ?case
  proof (cases out)
    case None
    then show ?thesis
      using length_map_filter_le [of outs] by (simp add: List.map_filter_simps less_Suc_eq_le)
  next
    case (Some v)
    with Cons show ?thesis by (simp add: List.map_filter_simps)
  qed
qed

text \<open>
  Claim C2. When the \<open>k\<close>-th POST returns \<^verbatim>\<open>{"id": ids[k]}\<close> for every payload,
  \<^verbatim>\<open>add_device_profiles\<close> returns \<open>ids\<close>, in submission order, and its events are
  those of \<open>throttled_trace\<close>: a pause of 3 after every 30th submission, so
  \<open>n div 30\<close> pauses for \<open>n\<close> payloads. For 31 payloads these are 30 POSTs, one
  pause, and the last POST.
\<close>

theorem add_device_profiles_throttle:
  assumes "length ids = length dp_list"
    and "\<forall>k<length dp_list.
           json_resp_post rest (h @ throttled_trace dp_list k) ''/api/device-profiles''
             (dp_list ! k) = Inr (JDict [(''id'', ids ! k)])"
  shows "add_device_profiles rest h dp_list =
           (Inr ids, h @ throttled_trace dp_list (length dp_list)) \<and>
         count_list (throttled_trace dp_list (length dp_list)) (SLEEP 3) = length dp_list div 30 \<and>
         (length dp_list = 31 \<longrightarrow>
            throttled_trace dp_list (length dp_list) =
              map (POST ''/api/device-profiles'') (take 30 dp_list) @
                [SLEEP 3, POST ''/api/device-profiles'' (dp_list ! 30)])"
proof -
  have "add_device_profiles_loop rest dp_list (h @ throttled_trace dp_list 0) [] 0 =
     (Inr ([] @ List.map_filter (\<lambda>out. out) (drop 0 (map Some ids))),
      h @ throttled_trace dp_list (length dp_list))"
    using assms by (intro add_loop_run) simp_all
  then have "add_device_profiles rest h dp_list =
           (Inr ids, h @ throttled_trace dp_list (length dp_list))"
    by (simp add: add_device_profiles_def throttled_trace_0 map_filter_Some)
  then show ?thesis
    by (simp add: count_pauses throttled_trace_31)
qed

theorem add_device_profiles_throttle_witness:
  "add_device_profiles echo_client [] (map (\<lambda>n. JInt (int n)) [0..<31]) =
     (Inr (map (\<lambda>n. JInt (int n)) [0..<31]),
      map (\<lambda>n. POST ''/api/device-profiles'' (JInt (int n))) [0..<30] @
        [SLEEP 3, POST ''/api/device-profiles'' (JInt 30)]) \<and>
   count_list
     (map (\<lambda>n. POST ''/api/device-profiles'' (JInt (int n))) [0..<30] @
        [SLEEP 3, POST ''/api/device-profiles'' (JInt 30)]) (SLEEP 3) = 1"
proof -
  let ?dps = "map (\<lambda>n. JInt (int n)) [0..<31]"
  have "\<forall>k<length ?dps.
           json_resp_post echo_client ([] @ throttled_trace ?dps k) ''/api/device-profiles''
             (?dps ! k) = Inr (JDict [(''id'', ?dps ! k)])"
    by (simp add: echo_client_def)
  from add_device_profiles_throttle [OF _ this]
  show ?thesis
    by (auto simp: take_map count_list_0_iff)
qed

text \<open>
  Claim C5. Let the \<open>k\<close>-th POST return either a falsy response, such as
  \<^verbatim>\<open>None\<close> (\<open>outs ! k = None\<close>), or a truthy one whose \<^verbatim>\<open>id\<close> is \<open>v\<close>
  (\<open>outs ! k = Some v\<close>). Then \<^verbatim>\<open>add_device_profiles\<close> raises nothing and returns the
  ids of the truthy responses in submission order; every payload is posted, once, in
  order; and the result is shorter than the input exactly when some response was
  skipped.
\<close>

theorem add_device_profiles_skips_null:
  assumes "length outs = length dp_list"
    and "\<forall>k<length dp_list. \<exists>r.
           json_resp_post rest (h @ throttled_trace dp_list k) ''/api/device-profiles''
             (dp_list ! k) = Inr r \<and>
           (case outs ! k of
              None \<Rightarrow> \<not> truthy r
            | Some v \<Rightarrow> truthy r \<and> subscript r ''id'' = Inr v)"
  shows "\<not> truthy JNull \<and>
         add_device_profiles rest h dp_list =
           (Inr (List.map_filter (\<lambda>out. out) outs),
            h @ throttled_trace dp_list (length dp_list)) \<and>
         filter (\<lambda>e. e \<noteq> SLEEP 3) (throttled_trace dp_list (length dp_list)) =
           map (POST ''/api/device-profiles'') dp_list \<and>
         (length (List.map_filter (\<lambda>out. out) outs) < length dp_list \<longleftrightarrow> None \<in> set outs)"
proof -
  have "add_device_profiles_loop rest dp_list (h @ throttled_trace dp_list 0) [] 0 =
     (Inr ([] @ List.map_filter (\<lambda>out. out) (drop 0 outs)),
      h @ throttled_trace dp_list (length dp_list))"
    using assms by (intro add_loop_run) simp_all
  then have "add_device_profiles rest h dp_list =
           (Inr (List.map_filter (\<lambda>out. out) outs),
            h @ throttled_trace dp_list (length dp_list))"
    by (simp add: add_device_profiles_def throttled_trace_0)
  then show ?thesis
    using assms(1) length_map_filter_less [of outs]
    by (simp add: submissions_of_trace)
qed

theorem add_device_profiles_skips_null_witness:
  "add_device_profiles echo_client [] [JInt 1, JNull, JInt 3] =
     (Inr [JInt 1, JInt 3],
      [POST ''/api/device-profiles'' (JInt 1), POST ''/api/device-profiles'' JNull,
       POST ''/api/device-profiles'' (JInt 3)]) \<and>
   length [JInt 1, JInt 3] < length [JInt 1, JNull, JInt 3]"
proof -
  have "\<forall>k<length [JInt 1, JNull, JInt 3]. \<exists>r.
           json_resp_post echo_client ([] @ throttled_trace [JInt 1, JNull, JInt 3] k)
             ''/api/device-profiles'' ([JInt 1, JNull, JInt 3] ! k) = Inr r \<and>
           (case [Some (JInt 1), None, Some (JInt 3)] ! k of
              None \<Rightarrow> \<not> truthy r
            | Some v \<Rightarrow> truthy r \<and> subscript r ''id'' = Inr v)"
    by (simp add: echo_client_def All_less_Suc)
  from add_device_profiles_skips_null [OF _ this]
  show ?thesis
    by (simp add: List.map_filter_simps throttled_trace_def upt_rec)
qed

section \<open>Device profiles: batch deletion\<close>

lemma delete_loop_run:
  "\<forall>k<length dp_list.
      \<not> isl (json_resp_delete rest (h @ delete_trace (take k dp_list))
               (''/api/device-profiles/'' @ dp_list ! k)) \<Longrightarrow>
   delete_device_profiles_loop rest h ids dp_list =
     (Inr (ids @ dp_list), h @ delete_trace dp_list)"
proof (induction dp_list arbitrary: h ids)
  case Nil
  then show ?case by (simp add: delete_trace_def)
next
  case (Cons dp_id dp_list)
  from Cons.prems have "\<not> isl (json_resp_delete rest h (''/api/device-profiles/'' @ dp_id))"
    by (auto simp: delete_trace_def)
  then obtain r where r: "json_resp_delete rest h (''/api/device-profiles/'' @ dp_id) = Inr r"
    by (cases "json_resp_delete rest h (''/api/device-profiles/'' @ dp_id)") auto
  have "\<forall>k<length dp_list.
      \<not> isl (json_resp_delete rest
               ((h @ [DELETE (''/api/device-profiles/'' @ dp_id)]) @ delete_trace (take k dp_list))
               (''/api/device-profiles/'' @ dp_list ! k))"
  proof (intro allI impI)
    fix k assume "k < length dp_list"
    then show "\<not> isl (json_resp_delete rest
               ((h @ [DELETE (''/api/device-profiles/'' @ dp_id)]) @ delete_trace (take k dp_list))
               (''/api/device-profiles/'' @ dp_list ! k))"
      using Cons.prems [rule_format, of "Suc k"] by (simp add: delete_trace_def)
  qed
  from Cons.IH [OF this, of "ids @ [dp_id]"] r show ?case
    by (simp add: rest_delete_def delete_trace_def)
qed

lemma delete_loop_raise:
  "k < length dp_list \<Longrightarrow>
   \<forall>j<k. \<not> isl (json_resp_delete rest (h @ delete_trace (take j dp_list))
               (''/api/device-profiles/'' @ dp_list ! j)) \<Longrightarrow>
   json_resp_delete rest (h @ delete_trace (take k dp_list))
     (''/api/device-profiles/'' @ dp_list ! k) = Inl e \<Longrightarrow>
   delete_device_profiles_loop rest h ids dp_list =
     (Inl e, h @ delete_trace (take (Suc k) dp_list))"
proof (induction dp_list arbitrary: h ids k)
  case Nil
  then show ?case by simp
next
  case (Cons dp_id dp_list)
  show ?case
  proof (cases k)
    case 0
    with Cons.prems show ?thesis by (simp add: rest_delete_def delete_trace_def)
  next
    case (Suc k')
    from Cons.prems(2) Suc
    have "\<not> isl (json_resp_delete rest h (''/api/device-profiles/'' @ dp_id))"
      by (auto simp: delete_trace_def)
    then obtain r where r: "json_resp_delete rest h (''/api/device-profiles/'' @ dp_id) = Inr r"
      by (cases "json_resp_delete rest h (''/api/device-profiles/'' @ dp_id)") auto
    have a: "\<forall>j<k'.
      \<not> isl (json_resp_delete rest
               ((h @ [DELETE (''/api/device-profiles/'' @ dp_id)]) @ delete_trace (take j dp_list))
               (''/api/device-profiles/'' @ dp_list ! j))"
    proof (intro allI impI)
      fix j assume "j < k'"
      then show "\<not> isl (json_resp_delete rest
               ((h @ [DELETE (''/api/device-profiles/'' @ dp_id)]) @ delete_trace (take j dp_list))
               (''/api/device-profiles/'' @ dp_list ! j))"
        using Cons.prems(2) [rule_format, of "Suc j"] Suc by (simp add: delete_trace_def)
    qed
    have b: "json_resp_delete rest
               ((h @ [DELETE (''/api/device-profiles/'' @ dp_id)]) @ delete_trace (take k' dp_list))
               (''/api/device-profiles/'' @ dp_list ! k') = Inl e"
      using Cons.prems(3) Suc by (simp add: delete_trace_def)
    have c: "k' < length dp_list" using Cons.prems(1) Suc by simp
    from Cons.IH [OF c a b, of "ids @ [dp_id]"] r Suc show ?thesis
      by (simp add: rest_delete_def delete_trace_def)
  qed
qed

text \<open>
  Claim C6, as amended. When no DELETE raises, \<^verbatim>\<open>delete_device_profiles\<close> issues one
  DELETE per id in input order and returns the input list, whatever the client
  returned. When the DELETE of the \<open>k\<close>-th id is the first to raise, the exception
  leaves the call: no list is returned and no later id is requested.
\<close>

theorem delete_device_profiles_returns_input:
  "((\<forall>k<length dp_list.
       \<not> isl (json_resp_delete rest (h @ delete_trace (take k dp_list))
                (''/api/device-profiles/'' @ dp_list ! k))) \<longrightarrow>
      delete_device_profiles rest h dp_list = (Inr dp_list, h @ delete_trace dp_list)) \<and>
   (k < length dp_list \<and>
    (\<forall>j<k. \<not> isl (json_resp_delete rest (h @ delete_trace (take j dp_list))
                (''/api/device-profiles/'' @ dp_list ! j))) \<and>
    json_resp_delete rest (h @ delete_trace (take k dp_list))
      (''/api/device-profiles/'' @ dp_list ! k) = Inl e \<longrightarrow>
      delete_device_profiles rest h dp_list =
        (Inl e, h @ delete_trace (take (Suc k) dp_list)))"
  using delete_loop_run [of dp_list rest h "[]"] delete_loop_raise [of k dp_list rest h e "[]"]
  by (simp add: delete_device_profiles_def)

theorem delete_device_profiles_returns_input_witness:
  "delete_device_profiles (stub_client JNull) [] [''a'', ''b'', ''c''] =
     (Inr [''a'', ''b'', ''c''],
      [DELETE ''/api/device-profiles/a'', DELETE ''/api/device-profiles/b'',
       DELETE ''/api/device-profiles/c'']) \<and>
   delete_device_profiles (refusing_client ''/api/device-profiles/y'') [] [''x'', ''y'', ''z''] =
     (Inl (AosAPIError ''404''),
      [DELETE ''/api/device-profiles/x'', DELETE ''/api/device-profiles/y''])"
proof -
  have a: "\<forall>k<length [''a'', ''b'', ''c''].
       \<not> isl (json_resp_delete (stub_client JNull) ([] @ delete_trace (take k [''a'', ''b'', ''c'']))
                (''/api/device-profiles/'' @ [''a'', ''b'', ''c''] ! k))"
    by (simp add: stub_client_def)
  have b: "Suc 0 < length [''x'', ''y'', ''z''] \<and>
    (\<forall>j<Suc 0. \<not> isl (json_resp_delete (refusing_client ''/api/device-profiles/y'')
                ([] @ delete_trace (take j [''x'', ''y'', ''z'']))
                (''/api/device-profiles/'' @ [''x'', ''y'', ''z''] ! j))) \<and>
    json_resp_delete (refusing_client ''/api/device-profiles/y'')
      ([] @ delete_trace (take (Suc 0) [''x'', ''y'', ''z'']))
      (''/api/device-profiles/'' @ [''x'', ''y'', ''z''] ! Suc 0) = Inl (AosAPIError ''404'')"
    by (simp add: refusing_client_def)
  from delete_device_profiles_returns_input
         [of "[''a'', ''b'', ''c'']" "stub_client JNull" "[]" 0 "AosAPIError ''404''"] a
  have 1: "delete_device_profiles (stub_client JNull) [] [''a'', ''b'', ''c''] =
     (Inr [''a'', ''b'', ''c''], [] @ delete_trace [''a'', ''b'', ''c''])"
    by blast
  from delete_device_profiles_returns_input
         [of "[''x'', ''y'', ''z'']" "refusing_client ''/api/device-profiles/y''" "[]" "Suc 0"
             "AosAPIError ''404''"] b
  have 2: "delete_device_profiles (refusing_client ''/api/device-profiles/y'') []
             [''x'', ''y'', ''z''] =
     (Inl (AosAPIError ''404''), [] @ delete_trace (take (Suc (Suc 0)) [''x'', ''y'', ''z'']))"
    by blast
  from 1 2 show ?thesis by (simp add: delete_trace_def)
qed

text \<open>
  The claim as first stated promises the full list also when the client raises. With a
  client that refuses \<^verbatim>\<open>b\<close>, the call on \<^verbatim>\<open>["a", "b", "c"]\<close> raises after two
  requests.
\<close>

theorem delete_device_profiles_transport_raises:
  "delete_device_profiles (refusing_client ''/api/device-profiles/b'') [] [''a'', ''b'', ''c''] =
     (Inl (AosAPIError ''404''),
      [DELETE ''/api/device-profiles/a'', DELETE ''/api/device-profiles/b''])"
  by (simp add: delete_device_profiles_def rest_delete_def refusing_client_def)

end
